theory Spec2Isabelle
  imports Complex_Main "HOL-Library.Multiset"
begin

section \<open>Numbers, vectors and images\<close>

text \<open>
  The height-map tool (\<^verbatim>\<open>main\<close> of the second unit of \<^verbatim>\<open>src/unnamed/part_000\<close>) works on
  32-bit floats. Float values are modelled as reals. The functions of the pipeline are
  written with exact real arithmetic: rounding, infinities and NaN are outside that model,
  and a statement proved on it is a statement under exact arithmetic. Where the outcome of
  the program depends on rounding (the quotients of lines 199 and 354), the computation is
  written a second time with every operation rounded to binary32 (\<open>fl32\<close> below, names
  ending in \<open>_f32\<close>). What both keep of the float type is its most negative finite value
  \<open>lowest\<close>, which the program uses as the "no data" sentinel, and the fact that a
  conversion to \<^verbatim>\<open>int\<close> is only defined for values whose truncation fits 32 bits. A
  division by a zero resolution produces an infinity or a NaN in the program; every place
  where the model divides by the resolution and converts the quotient to \<^verbatim>\<open>int\<close> returns
  \<open>None\<close> for a zero resolution.
\<close>

type_synonym vec3 = "real \<times> real \<times> real"

definition vx :: "vec3 \<Rightarrow> real" where "vx v = fst v"
definition vy :: "vec3 \<Rightarrow> real" where "vy v = fst (snd v)"
definition vz :: "vec3 \<Rightarrow> real" where "vz v = snd (snd v)"

definition float_max :: real where
  "float_max = 2 ^ 128 - 2 ^ 104"

definition lowest :: real where
  "lowest = - float_max"

text \<open>Conversion of a float to \<^verbatim>\<open>int\<close>: truncation towards zero, undefined out of range.\<close>

definition float_to_int :: "real \<Rightarrow> int option" where
  "float_to_int v =
     (let t = (if 0 \<le> v then \<lfloor>v\<rfloor> else \<lceil>v\<rceil>)
      in if - (2 ^ 31) \<le> t \<and> t < 2 ^ 31 then Some t else None)"

text \<open>
  Rounding to binary32, to nearest with ties to even. \<open>f32_ulp n u a\<close> looks for the spacing
  of the floats around the magnitude \<open>a\<close>: it starts at the spacing \<open>1 / 2 ^ 149\<close> of the
  subnormal numbers and doubles it as long as \<open>a\<close> is not below \<open>2 ^ 24\<close> spacings. A result
  beyond the largest float would be an infinity and is \<open>None\<close>.
\<close>

definition round_even :: "real \<Rightarrow> int" where
  "round_even q =
     (let f = \<lfloor>q\<rfloor>; d = q - of_int f
      in if d < 1 / 2 then f else if 1 / 2 < d then f + 1 else if even f then f else f + 1)"

fun f32_ulp :: "nat \<Rightarrow> real \<Rightarrow> real \<Rightarrow> real" where
  "f32_ulp 0 u a = u"
| "f32_ulp (Suc n) u a = (if a < u * 2 ^ 24 then u else f32_ulp n (2 * u) a)"

definition fl32 :: "real \<Rightarrow> real option" where
  "fl32 x =
     (let u = f32_ulp 253 (1 / 2 ^ 149) \<bar>x\<bar>;
          y = of_int (round_even (x / u)) * u
      in if \<bar>y\<bar> \<le> float_max then Some y else None)"

text \<open>
  Modelled from the spec: \<^verbatim>\<open>mve::FloatImage\<close> (one channel), whose library is not among the
  sources. The image is the Grid of the spec: a \<open>width \<times> height\<close> array of heights
  addressed by cell \<open>(x, y)\<close>, stored row by row in one buffer of \<open>width * height\<close> values.
  \<open>pix\<close> gives the value stored for a cell of the grid. \<^verbatim>\<open>at(x, y, 0)\<close> does no bounds check:
  it accesses the buffer at offset \<open>y * width + x\<close>. So an index outside
  \<open>0 \<le> x < width\<close>, \<open>0 \<le> y < height\<close> whose offset is inside the buffer reads or writes the
  cell \<open>(offset mod width, offset div width)\<close> that is stored there, and an offset outside
  the buffer is an undefined access, \<open>None\<close> in the model.
\<close>

record image =
  width :: int
  height :: int
  pix :: "int \<Rightarrow> int \<Rightarrow> real"

definition in_bounds :: "image \<Rightarrow> int \<Rightarrow> int \<Rightarrow> bool" where
  "in_bounds img x y \<longleftrightarrow> 0 \<le> x \<and> x < width img \<and> 0 \<le> y \<and> y < height img"

definition offset :: "image \<Rightarrow> int \<Rightarrow> int \<Rightarrow> int" where
  "offset img x y = y * width img + x"

definition in_buffer :: "image \<Rightarrow> int \<Rightarrow> bool" where
  "in_buffer img off \<longleftrightarrow> 0 \<le> off \<and> off < width img * height img"

definition at_img :: "image \<Rightarrow> int \<Rightarrow> int \<Rightarrow> real option" where
  "at_img img x y =
     (let off = offset img x y
      in if in_buffer img off
         then Some (pix img (off mod width img) (off div width img))
         else None)"

definition set_at :: "image \<Rightarrow> int \<Rightarrow> int \<Rightarrow> real \<Rightarrow> image option" where
  "set_at img x y v =
     (let off = offset img x y;
          cx = off mod width img;
          cy = off div width img
      in if in_buffer img off
         then Some (img\<lparr>pix := (pix img)(cx := (pix img cx)(cy := v))\<rparr>)
         else None)"

definition create :: "int \<Rightarrow> int \<Rightarrow> image option" where
  "create w h =
     (if w < 0 \<or> h < 0 then None
      else Some \<lparr>width = w, height = h, pix = (\<lambda>x y. 0)\<rparr>)"

definition fill :: "image \<Rightarrow> real \<Rightarrow> image" where
  "fill img v = img\<lparr>pix := (\<lambda>x y. v)\<rparr>"

section \<open>Bounding box and grid creation\<close>

record AABB =
  amin :: vec3
  amax :: vec3

text \<open>Lines 187-195: the box starts at \<open>(max, -max)\<close> and is narrowed by every vertex.\<close>

fun bounding_box_loop :: "vec3 list \<Rightarrow> AABB \<Rightarrow> AABB" where
  "bounding_box_loop [] aabb = aabb"
| "bounding_box_loop (v # verts) aabb =
     bounding_box_loop verts
       \<lparr>amin = (min (vx (amin aabb)) (vx v), min (vy (amin aabb)) (vy v),
                min (vz (amin aabb)) (vz v)),
        amax = (max (vx (amax aabb)) (vx v), max (vy (amax aabb)) (vy v),
                max (vz (amax aabb)) (vz v))\<rparr>"

definition bounding_box :: "vec3 list \<Rightarrow> AABB" where
  "bounding_box verts =
     bounding_box_loop verts
       \<lparr>amin = (float_max, float_max, float_max),
        amax = (- float_max, - float_max, - float_max)\<rparr>"

definition volume :: "AABB \<Rightarrow> real" where
  "volume aabb =
     (let dx = vx (amax aabb) - vx (amin aabb);
          dy = vy (amax aabb) - vy (amin aabb);
          dz = vz (amax aabb) - vz (amin aabb)
      in if dx \<le> 0 \<or> dy \<le> 0 \<or> dz \<le> 0 then 0 else dx * dy * dz)"

text \<open>Lines 199-200: \<^verbatim>\<open>int width = (max - min) / resolution + 1.0f\<close>.\<close>

definition grid_dim :: "real \<Rightarrow> real \<Rightarrow> real \<Rightarrow> int option" where
  "grid_dim mx mn r = (if r = 0 then None else float_to_int ((mx - mn) / r + 1))"

text \<open>
  The same two lines with the three float operations rounded: the subtraction, the
  division and the addition of \<^verbatim>\<open>1.0f\<close>.
\<close>

definition grid_dim_f32 :: "real \<Rightarrow> real \<Rightarrow> real \<Rightarrow> int option" where
  "grid_dim_f32 mx mn r =
     (if r = 0 then None
      else case fl32 (mx - mn) of
             None \<Rightarrow> None
           | Some d \<Rightarrow>
               (case fl32 (d / r) of
                  None \<Rightarrow> None
                | Some q \<Rightarrow>
                    (case fl32 (q + 1) of
                       None \<Rightarrow> None
                     | Some w \<Rightarrow> float_to_int w)))"

text \<open>
  Lines 197-206: the assertion on the volume, the two dimensions, the new image filled
  with the sentinel. A failed assertion, an undefined conversion and a failed allocation
  are \<open>None\<close>.
\<close>

definition create_height_map :: "vec3 list \<Rightarrow> real \<Rightarrow> image option" where
  "create_height_map verts r =
     (let aabb = bounding_box verts
      in if \<not> volume aabb > 0 then None
         else case grid_dim (vx (amax aabb)) (vx (amin aabb)) r of
                None \<Rightarrow> None
              | Some w \<Rightarrow>
                  (case grid_dim (vy (amax aabb)) (vy (amin aabb)) r of
                     None \<Rightarrow> None
                   | Some h \<Rightarrow> map_option (\<lambda>img. fill img lowest) (create w h)))"

section \<open>Rasterizer\<close>

text \<open>
  Lines 210-211: \<^verbatim>\<open>int x = (vertex[0] - aabb.min[0]) / resolution + resolution / 2.0f + 0.5f\<close>.
\<close>

definition cell_index :: "real \<Rightarrow> real \<Rightarrow> real \<Rightarrow> int option" where
  "cell_index p mn r =
     (if r = 0 then None else float_to_int ((p - mn) / r + r / 2 + 1 / 2))"

text \<open>Lines 207-217: the loop over the vertices; a cell keeps the larger height.\<close>

fun rasterize_loop :: "vec3 list \<Rightarrow> vec3 \<Rightarrow> real \<Rightarrow> image \<Rightarrow> image option" where
  "rasterize_loop [] mn r hmap = Some hmap"
| "rasterize_loop (vertex # verts) mn r hmap =
     (case cell_index (vx vertex) (vx mn) r of
        None \<Rightarrow> None
      | Some x \<Rightarrow>
          (case cell_index (vy vertex) (vy mn) r of
             None \<Rightarrow> None
           | Some y \<Rightarrow>
               (case at_img hmap x y of
                  None \<Rightarrow> None
                | Some z \<Rightarrow>
                    if z > vz vertex then rasterize_loop verts mn r hmap
                    else (case set_at hmap x y (vz vertex) of
                            None \<Rightarrow> None
                          | Some hmap' \<Rightarrow> rasterize_loop verts mn r hmap'))))"

definition rasterize :: "vec3 list \<Rightarrow> real \<Rightarrow> image option" where
  "rasterize verts r =
     (case create_height_map verts r of
        None \<Rightarrow> None
      | Some hmap \<Rightarrow> rasterize_loop verts (amin (bounding_box verts)) r hmap)"

text \<open>
  A vertex maps to the cell \<open>(x, y)\<close> when the two index computations of lines 210-211
  give \<open>x\<close> and \<open>y\<close>.
\<close>

definition maps_to :: "vec3 \<Rightarrow> real \<Rightarrow> vec3 \<Rightarrow> int \<Rightarrow> int \<Rightarrow> bool" where
  "maps_to mn r v x y \<longleftrightarrow>
     cell_index (vx v) (vx mn) r = Some x \<and> cell_index (vy v) (vy mn) r = Some y"

section \<open>Neighbourhoods and the cells of a pass\<close>

text \<open>
  \<^verbatim>\<open>patch\<close> (lines 155-163) copies the \<open>3 \<times> 3\<close> neighbourhood of \<open>(x, y)\<close> into an array with
  \<^verbatim>\<open>(*ptr)[1 + j][1 + i] = img->at(x + j, y + i, 0)\<close>. The array is the list of its nine
  floats in memory order, so that entry \<open>[a][b]\<close> is element \<open>3 * a + b\<close>.
\<close>

definition patch :: "image \<Rightarrow> int \<Rightarrow> int \<Rightarrow> real list option" where
  "patch img x y =
     those (concat (map (\<lambda>j. map (\<lambda>i. at_img img (x + j) (y + i)) [- 1, 0, 1]) [- 1, 0, 1]))"

definition hts :: "real list \<Rightarrow> nat \<Rightarrow> nat \<Rightarrow> real" where
  "hts hs a b = hs ! (3 * a + b)"

text \<open>
  The cells in the order of the loop nest \<^verbatim>\<open>for y ... for x ...\<close>. The passes are OpenMP
  parallel loops whose iterations write distinct cells of a fresh image; the model runs
  them in sequence.
\<close>

definition cells :: "int \<Rightarrow> int \<Rightarrow> (int \<times> int) list" where
  "cells w h = concat (map (\<lambda>y. map (\<lambda>x. (x, y)) [0..w - 1]) [0..h - 1])"

definition is_border :: "image \<Rightarrow> int \<Rightarrow> int \<Rightarrow> bool" where
  "is_border img x y \<longleftrightarrow> y = 0 \<or> y = height img - 1 \<or> x = 0 \<or> x = width img - 1"

section \<open>Median denoiser\<close>

text \<open>Lines 226-233: the value written to cell \<open>(x, y)\<close> of the new image.\<close>

definition median_cell :: "image \<Rightarrow> int \<Rightarrow> int \<Rightarrow> real option" where
  "median_cell hmap x y =
     (if is_border hmap x y then Some lowest
      else map_option (\<lambda>heights. sort heights ! 4) (patch hmap x y))"

fun median_loop :: "(int \<times> int) list \<Rightarrow> image \<Rightarrow> image \<Rightarrow> image option" where
  "median_loop [] hmap tmp = Some tmp"
| "median_loop ((x, y) # cs) hmap tmp =
     (case median_cell hmap x y of
        None \<Rightarrow> None
      | Some v \<Rightarrow>
          (case set_at tmp x y v of
             None \<Rightarrow> None
           | Some tmp' \<Rightarrow> median_loop cs hmap tmp'))"

text \<open>Lines 219-238: one pass into a new image that replaces the old one.\<close>

definition median_filter :: "image \<Rightarrow> image option" where
  "median_filter hmap =
     (case create (width hmap) (height hmap) of
        None \<Rightarrow> None
      | Some tmp \<Rightarrow> median_loop (cells (width hmap) (height hmap)) hmap tmp)"

section \<open>Hole filler\<close>

text \<open>
  Lines 250-268: the value written to cell \<open>(x, y)\<close>, and whether the cell sets \<^verbatim>\<open>holes\<close>.
  \<^verbatim>\<open>std::remove\<close> keeps the values different from the sentinel in their order; \<open>n\<close> is their
  number and the cell becomes element \<open>n / 2\<close> of the sorted values.
\<close>

definition valid_heights :: "real list \<Rightarrow> real list" where
  "valid_heights heights = filter (\<lambda>v. v \<noteq> lowest) heights"

definition fill_cell :: "image \<Rightarrow> int \<Rightarrow> int \<Rightarrow> (real \<times> bool) option" where
  "fill_cell hmap x y =
     (if is_border hmap x y then Some (lowest, False)
      else case at_img hmap x y of
             None \<Rightarrow> None
           | Some c \<Rightarrow>
               if c \<noteq> lowest then Some (c, False)
               else (case patch hmap x y of
                       None \<Rightarrow> None
                     | Some heights \<Rightarrow>
                         let valid = valid_heights heights;
                             n = length valid
                         in if n \<ge> 3 then Some (sort valid ! (n div 2), False)
                            else Some (lowest, True)))"

fun fill_loop :: "(int \<times> int) list \<Rightarrow> image \<Rightarrow> image \<Rightarrow> bool \<Rightarrow> (image \<times> bool) option" where
  "fill_loop [] hmap tmp holes = Some (tmp, holes)"
| "fill_loop ((x, y) # cs) hmap tmp holes =
     (case fill_cell hmap x y of
        None \<Rightarrow> None
      | Some (v, hole) \<Rightarrow>
          (case set_at tmp x y v of
             None \<Rightarrow> None
           | Some tmp' \<Rightarrow> fill_loop cs hmap tmp' (holes \<or> hole)))"

text \<open>Lines 243-273: the body of the \<^verbatim>\<open>while\<close> loop, started with \<^verbatim>\<open>holes = false\<close>.\<close>

definition fill_pass :: "image \<Rightarrow> (image \<times> bool) option" where
  "fill_pass hmap =
     (case create (width hmap) (height hmap) of
        None \<Rightarrow> None
      | Some tmp \<Rightarrow> fill_loop (cells (width hmap) (height hmap)) hmap tmp False)"

text \<open>
  Lines 241-274: \<^verbatim>\<open>holes\<close> starts true, so the body runs at least once, and the loop runs
  as long as a pass sets \<^verbatim>\<open>holes\<close>. Nothing bounds the number of passes: the loop is a
  partial function, and \<open>None\<close> is also the value of a run that never ends.
\<close>

partial_function (option) fill_holes :: "image \<Rightarrow> image option" where
  "fill_holes hmap =
     (case fill_pass hmap of
        None \<Rightarrow> None
      | Some (tmp, holes) \<Rightarrow> if holes then fill_holes tmp else Some tmp)"

section \<open>Discontinuity resampler\<close>

text \<open>
  A generated sample is its position and its normal; a normal with NaN components is
  written \<open>None\<close>.
\<close>

type_synonym sample = "vec3 \<times> vec3 option"

text \<open>
  Modelled from the spec: \<^verbatim>\<open>normalize\<close> of \<^verbatim>\<open>math::Vec3f\<close>, whose library is not among the
  sources. It divides a vector by its length; for the zero vector the division gives NaN
  components.
\<close>

definition normalize_vec :: "vec3 \<Rightarrow> vec3 option" where
  "normalize_vec v =
     (let n = sqrt (vx v * vx v + vy v * vy v + vz v * vz v)
      in if n = 0 then None else Some (vx v / n, vy v / n, vz v / n))"

text \<open>Line 351: \<^verbatim>\<open>(math::Vec3f(0, 0, 1) + normal).normalize()\<close>.\<close>

definition blend_up :: "vec3 option \<Rightarrow> vec3 option" where
  "blend_up normal =
     (case normal of
        None \<Rightarrow> None
      | Some n \<Rightarrow> normalize_vec (0 + vx n, 0 + vy n, 1 + vz n))"

text \<open>Lines 316-322: the one-sided differences and the magnitude.\<close>

definition rdx :: "real list \<Rightarrow> real" where "rdx hs = - hts hs 0 1 + hts hs 1 1"
definition rdy :: "real list \<Rightarrow> real" where "rdy hs = - hts hs 1 0 + hts hs 1 1"
definition fdx :: "real list \<Rightarrow> real" where "fdx hs = - hts hs 1 1 + hts hs 2 1"
definition fdy :: "real list \<Rightarrow> real" where "fdy hs = - hts hs 1 1 + hts hs 1 2"

definition mag :: "real list \<Rightarrow> real" where
  "mag hs = max (max (rdx hs) (- fdx hs)) (max (rdy hs) (- fdy hs))"

text \<open>Lines 324-333: the gradient and the normal estimated from it.\<close>

definition grad_x :: "real list \<Rightarrow> real" where
  "grad_x hs =
     - hts hs 0 0 + hts hs 2 0 + 2 * (- hts hs 0 1 + hts hs 2 1) - hts hs 0 2 + hts hs 2 2"

definition grad_y :: "real list \<Rightarrow> real" where
  "grad_y hs =
     - hts hs 0 0 + hts hs 0 2 + 2 * (- hts hs 1 0 + hts hs 1 2) - hts hs 2 0 + hts hs 2 2"

definition grad_normal :: "real list \<Rightarrow> vec3 option" where
  "grad_normal hs = normalize_vec (- grad_x hs, - grad_y hs, 0)"

text \<open>Lines 334-335: \<^verbatim>\<open>px = (x - resolution / 2.0f) * resolution + aabb.min[0]\<close>.\<close>

definition sample_coord :: "real \<Rightarrow> real \<Rightarrow> int \<Rightarrow> real" where
  "sample_coord r mn x = (of_int x - r / 2) * r + mn"

text \<open>
  Lines 354-367: the loop \<^verbatim>\<open>for (int i = 1; i <= m / resolution; ++i)\<close>, under exact
  arithmetic: the differences, the quotient \<open>m / resolution\<close> and the elevation are the real
  ones. The nearest neighbour query of the k-d tree over the input cloud is the parameter
  \<open>find_nn\<close>. The counter is a 32-bit \<^verbatim>\<open>int\<close>: an iteration at \<open>2 ^ 31 - 1\<close> ends in the
  overflow of \<^verbatim>\<open>++i\<close>, which is \<open>None\<close>. The loop is entered with \<open>m > resolution\<close>, so the
  model is the loop of the program for a resolution other than zero.
\<close>

function wall_loop ::
  "(vec3 \<Rightarrow> real \<Rightarrow> bool) \<Rightarrow> bool \<Rightarrow> real \<Rightarrow> real \<Rightarrow> real list \<Rightarrow> vec3 option \<Rightarrow> real \<Rightarrow> real
     \<Rightarrow> int \<Rightarrow> sample list option" where
  "wall_loop find_nn fuse r ground_level hs normal px py i =
     (if of_int i \<le> mag hs / r then
        if i < 2 ^ 31 - 1 then
          let pz = ground_level + hts hs 1 1 - of_int i * r;
              vertex = (px, py, pz)
          in if fuse \<and> find_nn vertex r
             then wall_loop find_nn fuse r ground_level hs normal px py (i + 1)
             else if fdx hs > 0 \<and> rdx hs < 0 \<and> fdy hs > 0 \<and> rdy hs < 0
             then wall_loop find_nn fuse r ground_level hs normal px py (i + 1)
             else map_option (Cons (vertex, normal))
                    (wall_loop find_nn fuse r ground_level hs normal px py (i + 1))
        else None
      else Some [])"
  by pat_completeness auto
termination
  by (relation "measure (\<lambda>(find_nn, fuse, r, ground_level, hs, normal, px, py, i).
        nat (2 ^ 31 - i))") auto

declare wall_loop.simps [simp del]






text \<open>Line 311: the cells the resampler skips.\<close>

definition processed :: "image \<Rightarrow> int \<Rightarrow> int \<Rightarrow> bool" where
  "processed hmap x y \<longleftrightarrow>
     \<not> (y \<le> 1 \<or> y \<ge> height hmap - 2 \<or> x \<le> 1 \<or> x \<ge> width hmap - 2)"

text \<open>Lines 311-367: the samples one cell appends, in order.\<close>

definition resample_cell ::
  "(vec3 \<Rightarrow> real \<Rightarrow> bool) \<Rightarrow> bool \<Rightarrow> real \<Rightarrow> real \<Rightarrow> vec3 \<Rightarrow> image \<Rightarrow> int \<Rightarrow> int
     \<Rightarrow> sample list option" where
  "resample_cell find_nn fuse r ground_level mn hmap x y =
     (if \<not> processed hmap x y then Some []
      else case patch hmap x y of
             None \<Rightarrow> None
           | Some hs \<Rightarrow>
               let normal = grad_normal hs;
                   px = sample_coord r (vx mn) x;
                   py = sample_coord r (vy mn) y
               in if mag hs \<le> r
                  then (if \<not> fuse
                        then Some [((px, py, hts hs 1 1 + ground_level), Some (0, 0, 1))]
                        else Some [])
                  else map_option (Cons ((px, py, hts hs 1 1 + ground_level), blend_up normal))
                         (wall_loop find_nn fuse r ground_level hs normal px py 1))"

text \<open>
  Lines 309-369: the loop over the cells. The program appends under a critical section
  from parallel iterations, so the order between cells is not fixed there; the model
  appends in loop order.
\<close>

fun resample_loop ::
  "(vec3 \<Rightarrow> real \<Rightarrow> bool) \<Rightarrow> bool \<Rightarrow> real \<Rightarrow> real \<Rightarrow> vec3 \<Rightarrow> image \<Rightarrow> (int \<times> int) list
     \<Rightarrow> sample list \<Rightarrow> sample list option" where
  "resample_loop find_nn fuse r ground_level mn hmap [] scloud = Some scloud"
| "resample_loop find_nn fuse r ground_level mn hmap ((x, y) # cs) scloud =
     (case resample_cell find_nn fuse r ground_level mn hmap x y of
        None \<Rightarrow> None
      | Some ss \<Rightarrow> resample_loop find_nn fuse r ground_level mn hmap cs (scloud @ ss))"

definition resample ::
  "(vec3 \<Rightarrow> real \<Rightarrow> bool) \<Rightarrow> bool \<Rightarrow> real \<Rightarrow> real \<Rightarrow> vec3 \<Rightarrow> image \<Rightarrow> sample list option" where
  "resample find_nn fuse r ground_level mn hmap =
     resample_loop find_nn fuse r ground_level mn hmap
       (cells (width hmap) (height hmap)) []"

section \<open>Example inputs\<close>

text \<open>Small clouds and height maps on which the theorems below are instantiated.\<close>

definition small_cloud :: "vec3 list" where
  "small_cloud = [(0, 0, 0), (3, 3, 1)]"

definition wide_cloud :: "vec3 list" where
  "wide_cloud = [(0, 0, 0), (10, 10, 1)]"


definition flat_map :: image where
  "flat_map = \<lparr>width = 5, height = 5, pix = (\<lambda>x y. 0)\<rparr>"


definition lone_map :: image where
  "lone_map = \<lparr>width = 5, height = 5, pix = (\<lambda>x y. if x = 2 \<and> y = 2 then 7 else lowest)\<rparr>"

definition hole_map :: image where
  "hole_map =
     \<lparr>width = 5, height = 5,
      pix = (\<lambda>x y. if 1 \<le> x \<and> x \<le> 3 \<and> 1 \<le> y \<and> y \<le> 3
                        \<and> \<not> (x = 2 \<and> y = 2) \<and> \<not> (x = 3 \<and> y = 3)
                   then of_int (x + 3 * y) else lowest)\<rparr>"

definition hole_map_filled :: image where
  "hole_map_filled =
     \<lparr>width = 5, height = 5,
      pix = (\<lambda>x y. if 0 \<le> x \<and> x < 5 \<and> 0 \<le> y \<and> y < 5
                   then (if 1 \<le> x \<and> x \<le> 3 \<and> 1 \<le> y \<and> y \<le> 3
                         then (if x = 2 \<and> y = 2 then 7 else if x = 3 \<and> y = 3 then 9
                               else of_int (x + 3 * y))
                         else lowest)
                   else 0)\<rparr>"

definition alias_cloud :: "vec3 list" where
  "alias_cloud = [(0, 0, 0), (5 / 4, 0, 5), (0, 1, 1)]"



section \<open>Accesses inside the grid\<close>

text \<open>For a cell of the grid the access is the access to that cell.\<close>

lemma offset_in_bounds:
  assumes "in_bounds img x y"
  shows "in_buffer img (offset img x y)"
    and "offset img x y mod width img = x"
    and "offset img x y div width img = y"
proof -
  from assms have x: "0 \<le> x" "x < width img" and y: "0 \<le> y" "y < height img"
    by (simp_all add: in_bounds_def)
  have "(y + 1) * width img \<le> height img * width img"
    using x y by (intro mult_right_mono) simp_all
  then have "y * width img + x < width img * height img"
    using x by (simp add: algebra_simps)
  moreover have "0 \<le> y * width img + x" using x y by simp
  ultimately show "in_buffer img (offset img x y)"
    by (simp add: in_buffer_def offset_def)
  show "offset img x y mod width img = x"
    using x by (simp add: offset_def)
  show "offset img x y div width img = y"
    using x by (simp add: offset_def)
qed

lemma at_img_in_bounds:
  "in_bounds img x y \<Longrightarrow> at_img img x y = Some (pix img x y)"
  by (simp add: at_img_def Let_def offset_in_bounds)

lemma set_at_in_bounds:
  "in_bounds img x y \<Longrightarrow>
   set_at img x y v = Some (img\<lparr>pix := (pix img)(x := (pix img x)(y := v))\<rparr>)"
  by (simp add: set_at_def Let_def offset_in_bounds)

lemmas access_defs = at_img_def set_at_def offset_def in_buffer_def Let_def

section \<open>Rounding to binary32\<close>

lemma f32_ulp_eq:
  assumes "0 < u" "k \<le> n" "a < u * 2 ^ k * 2 ^ 24" "k = 0 \<or> u * 2 ^ (k - 1) * 2 ^ 24 \<le> a"
  shows "f32_ulp n u a = u * 2 ^ k"
  using assms
proof (induction k arbitrary: n u)
  case 0
  then show ?case by (cases n) simp_all
next
  case (Suc k)
  from Suc.prems(2) obtain n' where n: "n = Suc n'" and kn: "k \<le> n'" by (cases n) auto
  from Suc.prems(4) have ge: "u * 2 ^ k * 2 ^ 24 \<le> a" by simp
  have "u * 2 ^ 24 \<le> u * 2 ^ k * 2 ^ 24" using Suc.prems(1) by simp
  with ge have nlt: "\<not> a < u * 2 ^ 24" by simp
  have "f32_ulp n' (2 * u) a = 2 * u * 2 ^ k"
  proof (rule Suc.IH)
    show "0 < 2 * u" using Suc.prems(1) by simp
    show "k \<le> n'" by (rule kn)
    show "a < 2 * u * 2 ^ k * 2 ^ 24" using Suc.prems(3) by (simp add: mult_ac)
    show "k = 0 \<or> 2 * u * 2 ^ (k - 1) * 2 ^ 24 \<le> a"
    proof (cases k)
      case 0
      then show ?thesis by simp
    next
      case (Suc j)
      with ge show ?thesis by (simp add: mult_ac)
    qed
  qed
  with nlt show ?case by (simp add: n mult_ac)
qed

text \<open>
  A magnitude in the binade \<open>[2 ^ (k - 1), 2 ^ k) * 2 ^ 24 / 2 ^ 149\<close> is rounded to a
  multiple of \<open>2 ^ k / 2 ^ 149\<close>.
\<close>

lemma fl32_eq:
  assumes "k \<le> 253" "\<bar>x\<bar> < 2 ^ k * 2 ^ 24 / 2 ^ 149"
    and "k = 0 \<or> 2 ^ (k - 1) * 2 ^ 24 / 2 ^ 149 \<le> \<bar>x\<bar>"
  shows "fl32 x =
    (if \<bar>of_int (round_even (x / (2 ^ k / 2 ^ 149))) * (2 ^ k / 2 ^ 149)\<bar> \<le> float_max
     then Some (of_int (round_even (x / (2 ^ k / 2 ^ 149))) * (2 ^ k / 2 ^ 149)) else None)"
proof -
  have "f32_ulp 253 (1 / 2 ^ 149) \<bar>x\<bar> = 1 / 2 ^ 149 * 2 ^ k"
    using assms by (intro f32_ulp_eq) (auto simp: field_simps)
  then have u: "f32_ulp 253 (1 / 2 ^ 149) \<bar>x\<bar> = 2 ^ k / 2 ^ 149" by simp
  show ?thesis by (simp only: fl32_def Let_def u)
qed


lemma fl32_small_ints: "fl32 1 = Some 1" "fl32 2 = Some 2" "fl32 3 = Some 3" "fl32 8 = Some 8"
  using fl32_eq[of 126 1] fl32_eq[of 127 2] fl32_eq[of 127 3] fl32_eq[of 129 8]
  by (simp_all add: round_even_def float_max_def)

section \<open>Grid creation: the dimensions\<close>

lemma float_to_int_nonneg:
  "0 \<le> v \<Longrightarrow> \<lfloor>v\<rfloor> < 2 ^ 31 \<Longrightarrow> float_to_int v = Some \<lfloor>v\<rfloor>"
  by (simp add: float_to_int_def Let_def)

lemma bounding_box_small_cloud:
  "bounding_box small_cloud = \<lparr>amin = (0, 0, 0), amax = (3, 3, 1)\<rparr>"
  by (simp add: small_cloud_def bounding_box_def vx_def vy_def vz_def float_max_def)

lemma volume_small_cloud: "0 < volume (bounding_box small_cloud)"
  by (simp add: bounding_box_small_cloud volume_def vx_def vy_def vz_def)

text \<open>
  C6, as the code has it, under exact arithmetic. For a cloud whose bounding box has
  positive volume and a resolution \<open>r > 0\<close>, as long as both dimensions fit an \<^verbatim>\<open>int\<close>: when
  the extent, the quotient and the sum of lines 199-200 are computed without rounding, the
  created grid has width \<open>\<lfloor>(max.x - min.x) / r\<rfloor> + 1\<close> and height
  \<open>\<lfloor>(max.y - min.y) / r\<rfloor> + 1\<close> (the float is truncated after \<open>1\<close> is added, so the quotient
  is rounded down, not up), and every cell of the grid holds the sentinel.
\<close>

theorem create_height_map_dims:
  assumes vol: "0 < volume (bounding_box verts)" and r: "0 < r"
    and wr: "\<lfloor>(vx (amax (bounding_box verts)) - vx (amin (bounding_box verts))) / r\<rfloor> + 1 < 2 ^ 31"
    and hr: "\<lfloor>(vy (amax (bounding_box verts)) - vy (amin (bounding_box verts))) / r\<rfloor> + 1 < 2 ^ 31"
  shows "\<exists>g. create_height_map verts r = Some g
     \<and> width g = \<lfloor>(vx (amax (bounding_box verts)) - vx (amin (bounding_box verts))) / r\<rfloor> + 1
     \<and> height g = \<lfloor>(vy (amax (bounding_box verts)) - vy (amin (bounding_box verts))) / r\<rfloor> + 1
     \<and> (\<forall>x y. in_bounds g x y \<longrightarrow> at_img g x y = Some lowest)"
proof -
  let ?ex = "vx (amax (bounding_box verts)) - vx (amin (bounding_box verts))"
  let ?ey = "vy (amax (bounding_box verts)) - vy (amin (bounding_box verts))"
  from vol have ex: "0 < ?ex" and ey: "0 < ?ey"
    by (auto simp: volume_def Let_def split: if_splits)
  have qx: "0 \<le> ?ex / r + 1" and qy: "0 \<le> ?ey / r + 1"
    using ex ey r by (simp_all add: add_nonneg_nonneg)
  have fx: "\<lfloor>?ex / r + 1\<rfloor> = \<lfloor>?ex / r\<rfloor> + 1" and fy: "\<lfloor>?ey / r + 1\<rfloor> = \<lfloor>?ey / r\<rfloor> + 1"
    by simp_all
  have gx: "grid_dim (vx (amax (bounding_box verts))) (vx (amin (bounding_box verts))) r
      = Some (\<lfloor>?ex / r\<rfloor> + 1)"
    using r wr float_to_int_nonneg[OF qx] by (simp add: grid_dim_def fx)
  have gy: "grid_dim (vy (amax (bounding_box verts))) (vy (amin (bounding_box verts))) r
      = Some (\<lfloor>?ey / r\<rfloor> + 1)"
    using r hr float_to_int_nonneg[OF qy] by (simp add: grid_dim_def fy)
  have nx: "0 \<le> \<lfloor>?ex / r\<rfloor>" and ny: "0 \<le> \<lfloor>?ey / r\<rfloor>"
    using ex ey r by simp_all
  show ?thesis
    using vol gx gy nx ny
    by (simp del: zero_le_floor
        add: create_height_map_def Let_def create_def fill_def at_img_in_bounds)
qed

theorem create_height_map_dims_witness:
  "0 < volume (bounding_box small_cloud) \<and> (0::real) < 2
   \<and> (\<exists>g. create_height_map small_cloud 2 = Some g
          \<and> width g = 2 \<and> height g = 2 \<and> at_img g 1 1 = Some lowest)"
proof -
  have fl: "\<lfloor>(3::real) / 2\<rfloor> = 1" by simp
  from create_height_map_dims[OF volume_small_cloud, of 2]
  obtain g where "create_height_map small_cloud 2 = Some g" "width g = 2" "height g = 2"
    "\<forall>x y. in_bounds g x y \<longrightarrow> at_img g x y = Some lowest"
    by (auto simp: bounding_box_small_cloud vx_def vy_def fl)
  moreover from this have "at_img g 1 1 = Some lowest" by (simp add: in_bounds_def)
  ultimately show ?thesis using volume_small_cloud by auto
qed

text \<open>
  C6 as the spec states it fails: the cloud \<open>{(0,0,0), (3,3,1)}\<close> at resolution \<open>2\<close> has
  positive volume and extent \<open>3\<close> in \<open>x\<close>; the created grid is \<open>2\<close> wide, while
  \<open>\<lceil>3 / 2\<rceil> + 1 = 3\<close>.
\<close>

theorem create_height_map_not_ceiling:
  "0 < volume (bounding_box small_cloud)
   \<and> map_option width (create_height_map small_cloud 2) = Some 2
   \<and> \<lceil>(vx (amax (bounding_box small_cloud)) - vx (amin (bounding_box small_cloud))) / (2::real)\<rceil>
       + 1 = 3"
  by (simp add: bounding_box_small_cloud create_height_map_def volume_def vx_def vy_def vz_def
      grid_dim_def float_to_int_def Let_def create_def fill_def)

text \<open>
  In binary32 the quotient of line 199 can round up to an integer, and the dimension is
  then one more than under exact arithmetic. The extent \<open>11744051 / 2 ^ 24\<close> and the
  resolution \<open>13421773 / 2 ^ 27\<close> are the floats nearest to \<open>0.7\<close> and \<open>0.1\<close>; their quotient
  is below \<open>7\<close> and rounds to \<open>7\<close>.
\<close>

lemma grid_dim_f32_rounds_up:
  "fl32 (11744051 / 2 ^ 24) = Some (11744051 / 2 ^ 24)
   \<and> fl32 (13421773 / 2 ^ 27) = Some (13421773 / 2 ^ 27)
   \<and> grid_dim (11744051 / 2 ^ 24) 0 (13421773 / 2 ^ 27) = Some 7
   \<and> grid_dim_f32 (11744051 / 2 ^ 24) 0 (13421773 / 2 ^ 27) = Some 8"
proof -
  let ?e = "11744051 / 2 ^ 24 :: real"
  let ?r = "13421773 / 2 ^ 27 :: real"
  note ev = round_even_def float_max_def
  have e: "fl32 ?e = Some ?e" using fl32_eq[of 125 ?e] by (simp add: ev)
  have r: "fl32 ?r = Some ?r" using fl32_eq[of 122 ?r] by (simp add: ev)
  have d: "fl32 (?e - 0) = Some ?e" using e by simp
  have q: "fl32 (?e / ?r) = Some 7" using fl32_eq[of 128 "?e / ?r"] by (simp add: ev)
  have w: "fl32 (7 + 1) = Some 8" using fl32_small_ints(4) by simp
  have x: "grid_dim ?e 0 ?r = Some 7" by (simp add: grid_dim_def float_to_int_def)
  have "grid_dim_f32 ?e 0 ?r = Some 8"
    unfolding grid_dim_f32_def d q w option.case by (simp add: float_to_int_def)
  with e r x show ?thesis by simp
qed

section \<open>Rasterizer: the cell index is not checked\<close>

text \<open>
  C10. There is a cloud with positive bounding-box volume and a resolution \<open>r > 0\<close> such
  that a vertex of the cloud gets a cell index that is at least the width and at least
  the height of the grid, and whose offset \<open>y * width + x\<close> is beyond the
  \<open>width * height\<close> values of the buffer: the read of that cell is out of bounds and the
  rasterizer has no result. The cloud is \<open>{(0,0,0), (10,10,1)}\<close> at resolution \<open>2\<close>: the
  grid is \<open>6 \<times> 6\<close> and the second vertex maps to cell \<open>(6, 6)\<close>.
\<close>

theorem rasterize_out_of_bounds:
  "\<exists>verts r g v x y.
     0 < volume (bounding_box verts) \<and> 0 < r \<and> create_height_map verts r = Some g
     \<and> v \<in> set verts
     \<and> cell_index (vx v) (vx (amin (bounding_box verts))) r = Some x
     \<and> cell_index (vy v) (vy (amin (bounding_box verts))) r = Some y
     \<and> width g \<le> x \<and> height g \<le> y \<and> width g * height g \<le> y * width g + x
     \<and> at_img g x y = None
     \<and> rasterize verts r = None"
proof -
  let ?g = "\<lparr>width = 6, height = 6, pix = (\<lambda>x y. lowest)\<rparr>"
  have bb: "bounding_box wide_cloud = \<lparr>amin = (0, 0, 0), amax = (10, 10, 1)\<rparr>"
    by (simp add: wide_cloud_def bounding_box_def vx_def vy_def vz_def float_max_def)
  have vol: "0 < volume (bounding_box wide_cloud)"
    by (simp add: bb volume_def vx_def vy_def vz_def)
  have cr: "create_height_map wide_cloud 2 = Some ?g"
    by (simp add: create_height_map_def bb volume_def vx_def vy_def vz_def grid_dim_def
        float_to_int_def create_def fill_def)
  have ci: "cell_index 10 0 2 = Some 6" "cell_index 0 0 2 = Some 1"
    by (simp_all add: cell_index_def float_to_int_def)
  have at0: "at_img ?g 6 6 = None" "at_img ?g 1 1 = Some lowest"
    by (simp_all add: access_defs)
  have low: "\<not> lowest > 0" by (simp add: lowest_def float_max_def)
  have "rasterize_loop wide_cloud (0, 0, 0) 2 ?g = None"
    by (simp add: wide_cloud_def vx_def vy_def vz_def ci access_defs low)
  then have ras: "rasterize wide_cloud 2 = None"
    by (simp add: rasterize_def cr bb)
  have mem: "(10, 10, 1) \<in> set wide_cloud" by (simp add: wide_cloud_def)
  show ?thesis
    apply (rule exI[of _ wide_cloud], rule exI[of _ 2], rule exI[of _ ?g])
    apply (rule exI[of _ "(10, 10, 1)"], rule exI[of _ 6], rule exI[of _ 6])
    using vol cr ci at0 ras mem by (simp add: bb vx_def vy_def)
qed

section \<open>Rasterizer: the height kept in a cell\<close>

lemma vec_simps: "vx (a, b, c) = a" "vy (a, b, c) = b" "vz (a, b, c) = c"
  by (simp_all add: vx_def vy_def vz_def)

lemma lowest_neg: "lowest < 0"
  by (simp add: lowest_def float_max_def)

lemma bounding_box_alias_cloud:
  "bounding_box alias_cloud = \<lparr>amin = (0, 0, 0), amax = (5 / 4, 1, 5)\<rparr>"
  by (simp add: alias_cloud_def bounding_box_def vec_simps float_max_def)

lemma cell_index_half:
  "cell_index 0 0 (1 / 2) = Some 0" "cell_index (5 / 4) 0 (1 / 2) = Some 3"
  "cell_index 1 0 (1 / 2) = Some 2"
  by (simp_all add: cell_index_def float_to_int_def)

text \<open>
  C7 does not hold of the code. The cloud \<open>{(0,0,0), (1.25,0,5), (0,1,1)}\<close> at
  resolution \<open>0.5\<close> has positive volume and gets a \<open>3 \<times> 3\<close> grid. The vertex \<open>(1.25,0,5)\<close>
  maps to the index \<open>(3, 0)\<close>, one past the last column; the unchecked access at offset
  \<open>0 * 3 + 3\<close> writes its height \<open>5\<close> into the cell \<open>(0, 1)\<close>. The rasterizer returns a grid
  in which the cell \<open>(0, 1)\<close>, to which no vertex maps, holds \<open>5\<close> and not the sentinel. All
  float operations on this input are exact.
\<close>

theorem rasterize_alias_cell:
  "0 < volume (bounding_box alias_cloud)
   \<and> maps_to (amin (bounding_box alias_cloud)) (1 / 2) (0, 0, 0) 0 0
   \<and> maps_to (amin (bounding_box alias_cloud)) (1 / 2) (5 / 4, 0, 5) 3 0
   \<and> maps_to (amin (bounding_box alias_cloud)) (1 / 2) (0, 1, 1) 0 2
   \<and> (\<exists>g. rasterize alias_cloud (1 / 2) = Some g \<and> width g = 3 \<and> height g = 3
         \<and> in_bounds g 0 1 \<and> at_img g 0 1 = Some 5 \<and> 5 \<noteq> lowest)"
proof -
  have vol: "0 < volume (bounding_box alias_cloud)"
    by (simp add: bounding_box_alias_cloud volume_def vec_simps)
  have m: "maps_to (amin (bounding_box alias_cloud)) (1 / 2) (0, 0, 0) 0 0"
    "maps_to (amin (bounding_box alias_cloud)) (1 / 2) (5 / 4, 0, 5) 3 0"
    "maps_to (amin (bounding_box alias_cloud)) (1 / 2) (0, 1, 1) 0 2"
    by (simp_all add: bounding_box_alias_cloud maps_to_def vec_simps cell_index_half)
  have ch: "create_height_map alias_cloud (1 / 2)
      = Some \<lparr>width = 3, height = 3, pix = (\<lambda>x y. lowest)\<rparr>"
    by (simp add: create_height_map_def bounding_box_alias_cloud volume_def vec_simps
        grid_dim_def float_to_int_def create_def fill_def)
  have low: "\<not> lowest > 0" "\<not> lowest > 5" "\<not> lowest > 1" "5 \<noteq> lowest"
    using lowest_neg by simp_all
  have "\<exists>g. rasterize_loop alias_cloud (0, 0, 0) (1 / 2)
      \<lparr>width = 3, height = 3, pix = (\<lambda>x y. lowest)\<rparr> = Some g \<and> width g = 3 \<and> height g = 3
      \<and> at_img g 0 1 = Some 5"
    by (simp add: alias_cloud_def vec_simps cell_index_half access_defs low)
  then obtain g where "rasterize alias_cloud (1 / 2) = Some g" "width g = 3" "height g = 3"
    "at_img g 0 1 = Some 5"
    by (auto simp: rasterize_def ch bounding_box_alias_cloud)
  moreover from this have "in_bounds g 0 1" by (simp add: in_bounds_def)
  ultimately show ?thesis using vol m low(4) by blast
qed

section \<open>Neighbourhoods of interior cells\<close>

lemma patch_interior:
  assumes "0 < x" "x < width img - 1" "0 < y" "y < height img - 1"
  shows "patch img x y =
    Some [pix img (x - 1) (y - 1), pix img (x - 1) y, pix img (x - 1) (y + 1),
          pix img x (y - 1), pix img x y, pix img x (y + 1),
          pix img (x + 1) (y - 1), pix img (x + 1) y, pix img (x + 1) (y + 1)]"
  using assms by (simp add: patch_def at_img_in_bounds in_bounds_def)

lemma patch_processed:
  assumes "processed hmap x y"
  shows "\<exists>hs. patch hmap x y = Some hs \<and> length hs = 9 \<and> hts hs 1 1 = pix hmap x y"
proof -
  from assms have "0 < x" "x < width hmap - 1" "0 < y" "y < height hmap - 1"
    by (auto simp: processed_def)
  from patch_interior[OF this] show ?thesis by (simp add: hts_def)
qed

lemma set_cells: "set (cells w h) = {(x, y). 0 \<le> x \<and> x < w \<and> 0 \<le> y \<and> y < h}"
  by (auto simp: cells_def)

lemma interior_cell:
  "in_bounds img x y \<Longrightarrow> \<not> is_border img x y \<Longrightarrow>
   0 < x \<and> x < width img - 1 \<and> 0 < y \<and> y < height img - 1"
  by (auto simp: in_bounds_def is_border_def)

section \<open>Median denoiser: the cells of the new grid\<close>

lemma median_cell_Some:
  "in_bounds hmap x y \<Longrightarrow> \<exists>v. median_cell hmap x y = Some v"
  using interior_cell[of hmap x y] patch_interior[of x hmap y]
  by (auto simp: median_cell_def)

lemma median_loop_result:
  assumes "\<forall>c\<in>set cs. in_bounds tmp (fst c) (snd c) \<and> median_cell hmap (fst c) (snd c) \<noteq> None"
  shows "median_loop cs hmap tmp =
    Some (tmp\<lparr>pix := (\<lambda>x y. if (x, y) \<in> set cs then the (median_cell hmap x y) else pix tmp x y)\<rparr>)"
  using assms
proof (induction cs arbitrary: tmp)
  case Nil
  then show ?case by simp
next
  case (Cons c cs)
  obtain x y where c: "c = (x, y)" by (cases c)
  from Cons.prems c obtain v where v: "median_cell hmap x y = Some v" and ib: "in_bounds tmp x y"
    by auto
  let ?tmp' = "tmp\<lparr>pix := (pix tmp)(x := (pix tmp x)(y := v))\<rparr>"
  have "\<forall>c\<in>set cs. in_bounds ?tmp' (fst c) (snd c) \<and> median_cell hmap (fst c) (snd c) \<noteq> None"
    using Cons.prems by (simp add: in_bounds_def)
  from Cons.IH[OF this] show ?case
    using v ib by (auto simp: c set_at_in_bounds fun_eq_iff)
qed

lemma median_filter_result:
  assumes "0 \<le> width hmap" "0 \<le> height hmap"
  shows "median_filter hmap =
    Some \<lparr>width = width hmap, height = height hmap,
          pix = (\<lambda>x y. if in_bounds hmap x y then the (median_cell hmap x y) else 0)\<rparr>"
proof -
  let ?tmp = "\<lparr>width = width hmap, height = height hmap, pix = (\<lambda>x y. 0)\<rparr>"
  have cr: "create (width hmap) (height hmap) = Some ?tmp"
    using assms by (simp add: create_def)
  have "\<forall>c\<in>set (cells (width hmap) (height hmap)).
      in_bounds ?tmp (fst c) (snd c) \<and> median_cell hmap (fst c) (snd c) \<noteq> None"
    using median_cell_Some[of hmap] by (auto simp: set_cells in_bounds_def)
  from median_loop_result[OF this] show ?thesis
    by (simp add: median_filter_def cr set_cells in_bounds_def cong: if_cong)
qed

text \<open>
  Among nine values none of which is below \<open>lo\<close>, at least five of which are \<open>lo\<close>, the
  fifth smallest is \<open>lo\<close>.
\<close>

lemma sorted_median_lowest:
  assumes len: "length hs = 9" and ge: "\<forall>v\<in>set hs. lo \<le> v" and cnt: "5 \<le> count_list hs lo"
  shows "sort hs ! 4 = (lo::real)"
proof (rule ccontr)
  let ?xs = "sort hs"
  assume ne: "?xs ! 4 \<noteq> lo"
  have l9: "length ?xs = 9" using len by simp
  have "?xs ! 4 \<in> set ?xs" using l9 by (intro nth_mem) simp
  then have gt: "lo < ?xs ! 4" using ge ne by (auto simp: less_le)
  have "\<forall>v\<in>set (drop 4 ?xs). lo < v"
  proof
    fix v assume "v \<in> set (drop 4 ?xs)"
    then obtain i where "i < length (drop 4 ?xs)" "drop 4 ?xs ! i = v"
      by (auto simp: in_set_conv_nth)
    then have "v = ?xs ! (4 + i)" "4 + i < length ?xs" by auto
    then have "?xs ! 4 \<le> v" using sorted_nth_mono[of ?xs 4 "4 + i"] by simp
    with gt show "lo < v" by simp
  qed
  then have d0: "filter ((=) lo) (drop 4 ?xs) = []"
    by (auto simp: filter_empty_conv)
  have "count_list hs lo = count (mset hs) lo" by (simp add: count_mset)
  also have "\<dots> = count (mset ?xs) lo" by simp
  also have "\<dots> = length (filter ((=) lo) ?xs)"
    by (simp add: count_mset count_list_eq_length_filter del: mset_sort)
  also have "\<dots> = length (filter ((=) lo) (take 4 ?xs @ drop 4 ?xs))" by simp
  also have "\<dots> = length (filter ((=) lo) (take 4 ?xs))"
    unfolding filter_append using d0 by simp
  also have "\<dots> \<le> 4" using length_filter_le[of _ "take 4 ?xs"] by simp
  finally show False using cnt by simp
qed

text \<open>
  C8. The denoiser is one pass: for a grid with non-negative dimensions it returns a new
  grid of the same size; a border cell of it holds the sentinel; an interior cell holds
  element \<open>4\<close> of its sorted nine neighbourhood values (the fifth smallest), sentinels
  sorted like any value. When no neighbourhood value is below the sentinel (as for all
  finite floats) and at least five of the nine are the sentinel, the cell becomes the
  sentinel.
\<close>

theorem median_filter_cells:
  assumes "0 \<le> width hmap" "0 \<le> height hmap"
  shows "\<exists>tmp. median_filter hmap = Some tmp
     \<and> width tmp = width hmap \<and> height tmp = height hmap
     \<and> (\<forall>x y. in_bounds hmap x y \<longrightarrow>
          (is_border hmap x y \<longrightarrow> at_img tmp x y = Some lowest)
        \<and> (\<not> is_border hmap x y \<longrightarrow>
             (\<exists>hs. patch hmap x y = Some hs \<and> length hs = 9
                \<and> at_img tmp x y = Some (sort hs ! 4)
                \<and> ((\<forall>v\<in>set hs. lowest \<le> v) \<and> 5 \<le> count_list hs lowest
                     \<longrightarrow> at_img tmp x y = Some lowest))))"
proof -
  let ?tmp = "\<lparr>width = width hmap, height = height hmap,
          pix = (\<lambda>x y. if in_bounds hmap x y then the (median_cell hmap x y) else 0)\<rparr>"
  have mf: "median_filter hmap = Some ?tmp" by (rule median_filter_result[OF assms])
  have cell: "(is_border hmap x y \<longrightarrow> at_img ?tmp x y = Some lowest)
        \<and> (\<not> is_border hmap x y \<longrightarrow>
             (\<exists>hs. patch hmap x y = Some hs \<and> length hs = 9
                \<and> at_img ?tmp x y = Some (sort hs ! 4)
                \<and> ((\<forall>v\<in>set hs. lowest \<le> v) \<and> 5 \<le> count_list hs lowest
                     \<longrightarrow> at_img ?tmp x y = Some lowest)))" if ib: "in_bounds hmap x y" for x y
  proof (cases "is_border hmap x y")
    case True
    with ib show ?thesis by (simp add: at_img_in_bounds in_bounds_def median_cell_def)
  next
    case False
    from interior_cell[OF ib False]
    have i: "0 < x" "x < width hmap - 1" "0 < y" "y < height hmap - 1"
      by auto
    from patch_interior[OF i] obtain hs where hs: "patch hmap x y = Some hs" "length hs = 9"
      by simp
    have at: "at_img ?tmp x y = Some (sort hs ! 4)"
      using ib False hs by (simp add: at_img_in_bounds in_bounds_def median_cell_def)
    have "sort hs ! 4 = lowest" if "\<forall>v\<in>set hs. lowest \<le> v" "5 \<le> count_list hs lowest"
      using sorted_median_lowest[OF hs(2) that] .
    with at hs False show ?thesis by auto
  qed
  show ?thesis
    by (rule exI[of _ ?tmp]) (use mf cell in simp)
qed

theorem median_filter_cells_witness:
  "0 \<le> width lone_map \<and> 0 \<le> height lone_map \<and> in_bounds lone_map 2 2
   \<and> \<not> is_border lone_map 2 2 \<and> in_bounds lone_map 0 3 \<and> is_border lone_map 0 3
   \<and> patch lone_map 2 2 = Some [lowest, lowest, lowest, lowest, 7, lowest, lowest, lowest, lowest]
   \<and> (\<exists>tmp. median_filter lone_map = Some tmp \<and> at_img tmp 2 2 = Some lowest
         \<and> at_img tmp 0 3 = Some lowest)"
proof -
  have d: "0 \<le> width lone_map" "0 \<le> height lone_map" by (simp_all add: lone_map_def)
  have ib: "in_bounds lone_map 2 2" "\<not> is_border lone_map 2 2"
     "in_bounds lone_map 0 3" "is_border lone_map 0 3"
    by (simp_all add: lone_map_def in_bounds_def is_border_def)
  have p: "patch lone_map 2 2
      = Some [lowest, lowest, lowest, lowest, 7, lowest, lowest, lowest, lowest]"
    by (simp add: patch_def lone_map_def access_defs)
  have lo: "lowest \<le> 7" "lowest \<noteq> 7" by (simp_all add: lowest_def float_max_def)
  from median_filter_cells[OF d] obtain tmp where t: "median_filter lone_map = Some tmp"
    and c: "\<And>x y. in_bounds lone_map x y \<Longrightarrow>
          (is_border lone_map x y \<longrightarrow> at_img tmp x y = Some lowest)
        \<and> (\<not> is_border lone_map x y \<longrightarrow>
             (\<exists>hs. patch lone_map x y = Some hs \<and> length hs = 9
                \<and> at_img tmp x y = Some (sort hs ! 4)
                \<and> ((\<forall>v\<in>set hs. lowest \<le> v) \<and> 5 \<le> count_list hs lowest
                     \<longrightarrow> at_img tmp x y = Some lowest)))"
    by blast
  from c[OF ib(1)] ib(2) p lo have "at_img tmp 2 2 = Some lowest" by auto
  moreover from c[OF ib(3)] ib(4) have "at_img tmp 0 3 = Some lowest" by simp
  ultimately show ?thesis using d ib p t by simp
qed

section \<open>Hole filler: one pass\<close>

lemma fill_cell_Some:
  "in_bounds hmap x y \<Longrightarrow> \<exists>v b. fill_cell hmap x y = Some (v, b)"
  using interior_cell[of hmap x y] patch_interior[of x hmap y]
  by (auto simp: fill_cell_def at_img_in_bounds Let_def)

lemma fill_loop_result:
  assumes "\<forall>c\<in>set cs. in_bounds tmp (fst c) (snd c) \<and> fill_cell hmap (fst c) (snd c) \<noteq> None"
  shows "fill_loop cs hmap tmp holes =
    Some (tmp\<lparr>pix := (\<lambda>x y. if (x, y) \<in> set cs then fst (the (fill_cell hmap x y))
                            else pix tmp x y)\<rparr>,
          holes \<or> (\<exists>c\<in>set cs. snd (the (fill_cell hmap (fst c) (snd c)))))"
  using assms
proof (induction cs arbitrary: tmp holes)
  case Nil
  then show ?case by simp
next
  case (Cons c cs)
  obtain x y where c: "c = (x, y)" by (cases c)
  from Cons.prems c obtain v b where v: "fill_cell hmap x y = Some (v, b)"
    and ib: "in_bounds tmp x y"
    by auto
  let ?tmp' = "tmp\<lparr>pix := (pix tmp)(x := (pix tmp x)(y := v))\<rparr>"
  have "\<forall>c\<in>set cs. in_bounds ?tmp' (fst c) (snd c) \<and> fill_cell hmap (fst c) (snd c) \<noteq> None"
    using Cons.prems by (simp add: in_bounds_def)
  from Cons.IH[OF this, of "holes \<or> b"] show ?case
    using v ib by (auto simp: c set_at_in_bounds fun_eq_iff)
qed

lemma fill_pass_result:
  assumes "0 \<le> width hmap" "0 \<le> height hmap"
  shows "fill_pass hmap =
    Some (\<lparr>width = width hmap, height = height hmap,
           pix = (\<lambda>x y. if in_bounds hmap x y then fst (the (fill_cell hmap x y)) else 0)\<rparr>,
          \<exists>x y. in_bounds hmap x y \<and> snd (the (fill_cell hmap x y)))"
proof -
  let ?tmp = "\<lparr>width = width hmap, height = height hmap, pix = (\<lambda>x y. 0)\<rparr>"
  have cr: "create (width hmap) (height hmap) = Some ?tmp"
    using assms by (simp add: create_def)
  have "\<forall>c\<in>set (cells (width hmap) (height hmap)).
      in_bounds ?tmp (fst c) (snd c) \<and> fill_cell hmap (fst c) (snd c) \<noteq> None"
    using fill_cell_Some[of hmap] by (auto simp: set_cells in_bounds_def)
  from fill_loop_result[OF this, of False] show ?thesis
    by (simp add: fill_pass_def cr set_cells in_bounds_def cong: if_cong)
qed

lemma median_of_valid:
  assumes "3 \<le> length (valid_heights hs)"
  shows "sort (valid_heights hs) ! (length (valid_heights hs) div 2) \<noteq> lowest"
proof -
  let ?vs = "valid_heights hs"
  have "length ?vs div 2 < length (sort ?vs)" using assms by simp
  then have "sort ?vs ! (length ?vs div 2) \<in> set (sort ?vs)" by (rule nth_mem)
  then show ?thesis by (simp add: valid_heights_def)
qed

text \<open>The branches of \<open>fill_cell\<close> for a cell of the grid.\<close>

lemma fill_cell_cases:
  assumes ib: "in_bounds hmap x y"
  shows "(is_border hmap x y \<longrightarrow> fill_cell hmap x y = Some (lowest, False))
    \<and> (\<not> is_border hmap x y \<and> pix hmap x y \<noteq> lowest
         \<longrightarrow> fill_cell hmap x y = Some (pix hmap x y, False))
    \<and> (\<not> is_border hmap x y \<and> pix hmap x y = lowest \<longrightarrow>
         (\<exists>hs. patch hmap x y = Some hs
            \<and> (3 \<le> length (valid_heights hs) \<longrightarrow> fill_cell hmap x y =
                  Some (sort (valid_heights hs) ! (length (valid_heights hs) div 2), False))
            \<and> (length (valid_heights hs) < 3 \<longrightarrow> fill_cell hmap x y = Some (lowest, True))))"
  using ib interior_cell[of hmap x y] patch_interior[of x hmap y]
  by (auto simp: fill_cell_def at_img_in_bounds Let_def)

text \<open>
  C4. One pass over a grid with non-negative dimensions returns a grid of the same size in
  which a border cell holds the sentinel, a non-sentinel interior cell keeps its value, and
  a sentinel interior cell with \<open>n\<close> non-sentinel values in its neighbourhood becomes, for
  \<open>n \<ge> 3\<close>, element \<open>n div 2\<close> of these values sorted (their median, the upper one for an
  even \<open>n\<close>), and otherwise stays sentinel and sets \<open>holes\<close>. Nothing else sets \<open>holes\<close>.
\<close>

theorem fill_pass_cells:
  assumes "0 \<le> width hmap" "0 \<le> height hmap"
  shows "\<exists>tmp holes. fill_pass hmap = Some (tmp, holes)
     \<and> width tmp = width hmap \<and> height tmp = height hmap
     \<and> (\<forall>x y. in_bounds hmap x y \<longrightarrow>
          (is_border hmap x y \<longrightarrow> at_img tmp x y = Some lowest)
        \<and> (\<not> is_border hmap x y \<and> pix hmap x y \<noteq> lowest
             \<longrightarrow> at_img tmp x y = Some (pix hmap x y))
        \<and> (\<not> is_border hmap x y \<and> pix hmap x y = lowest \<longrightarrow>
             (\<exists>hs. patch hmap x y = Some hs
                \<and> (3 \<le> length (valid_heights hs) \<longrightarrow> at_img tmp x y =
                      Some (sort (valid_heights hs) ! (length (valid_heights hs) div 2)))
                \<and> (length (valid_heights hs) < 3 \<longrightarrow> at_img tmp x y = Some lowest \<and> holes))))
     \<and> (holes \<longrightarrow> (\<exists>x y hs. in_bounds hmap x y \<and> \<not> is_border hmap x y \<and> pix hmap x y = lowest
                       \<and> patch hmap x y = Some hs \<and> length (valid_heights hs) < 3))"
proof -
  let ?tmp = "\<lparr>width = width hmap, height = height hmap,
           pix = (\<lambda>x y. if in_bounds hmap x y then fst (the (fill_cell hmap x y)) else 0)\<rparr>"
  let ?holes = "\<exists>x y. in_bounds hmap x y \<and> snd (the (fill_cell hmap x y))"
  have fp: "fill_pass hmap = Some (?tmp, ?holes)" by (rule fill_pass_result[OF assms])
  have at: "at_img ?tmp x y = Some (fst (the (fill_cell hmap x y)))" if "in_bounds hmap x y" for x y
    using that by (simp add: at_img_in_bounds in_bounds_def)
  have cell: "(is_border hmap x y \<longrightarrow> at_img ?tmp x y = Some lowest)
        \<and> (\<not> is_border hmap x y \<and> pix hmap x y \<noteq> lowest
             \<longrightarrow> at_img ?tmp x y = Some (pix hmap x y))
        \<and> (\<not> is_border hmap x y \<and> pix hmap x y = lowest \<longrightarrow>
             (\<exists>hs. patch hmap x y = Some hs
                \<and> (3 \<le> length (valid_heights hs) \<longrightarrow> at_img ?tmp x y =
                      Some (sort (valid_heights hs) ! (length (valid_heights hs) div 2)))
                \<and> (length (valid_heights hs) < 3 \<longrightarrow> at_img ?tmp x y = Some lowest \<and> ?holes)))"
    if ib: "in_bounds hmap x y" for x y
  proof (intro conjI impI)
    assume "is_border hmap x y"
    with fill_cell_cases[OF ib] at[OF ib] show "at_img ?tmp x y = Some lowest" by simp
  next
    assume "\<not> is_border hmap x y \<and> pix hmap x y \<noteq> lowest"
    with fill_cell_cases[OF ib] at[OF ib] show "at_img ?tmp x y = Some (pix hmap x y)" by simp
  next
    assume "\<not> is_border hmap x y \<and> pix hmap x y = lowest"
    with fill_cell_cases[OF ib] obtain hs where hs: "patch hmap x y = Some hs"
      and big: "3 \<le> length (valid_heights hs) \<Longrightarrow> fill_cell hmap x y =
                  Some (sort (valid_heights hs) ! (length (valid_heights hs) div 2), False)"
      and small: "length (valid_heights hs) < 3 \<Longrightarrow> fill_cell hmap x y = Some (lowest, True)"
      by blast
    have "at_img ?tmp x y = Some (sort (valid_heights hs) ! (length (valid_heights hs) div 2))"
      if "3 \<le> length (valid_heights hs)"
      using big[OF that] at[OF ib] by simp
    moreover have "at_img ?tmp x y = Some lowest \<and> ?holes" if "length (valid_heights hs) < 3"
    proof
      show "at_img ?tmp x y = Some lowest" using small[OF that] at[OF ib] by simp
      have "snd (the (fill_cell hmap x y))" using small[OF that] by simp
      with ib show ?holes by blast
    qed
    ultimately show "\<exists>hs. patch hmap x y = Some hs
                \<and> (3 \<le> length (valid_heights hs) \<longrightarrow> at_img ?tmp x y =
                      Some (sort (valid_heights hs) ! (length (valid_heights hs) div 2)))
                \<and> (length (valid_heights hs) < 3 \<longrightarrow> at_img ?tmp x y = Some lowest \<and> ?holes)"
      using hs by blast
  qed
  have src: "\<exists>x y hs. in_bounds hmap x y \<and> \<not> is_border hmap x y \<and> pix hmap x y = lowest
                       \<and> patch hmap x y = Some hs \<and> length (valid_heights hs) < 3" if h: "?holes"
  proof -
    from h obtain x y where ib: "in_bounds hmap x y" and s: "snd (the (fill_cell hmap x y))"
      by blast
    from fill_cell_cases[OF ib] s show ?thesis
      using ib by (cases "is_border hmap x y"; cases "pix hmap x y = lowest") (auto 4 3)
  qed
  show ?thesis
    apply (rule exI[of _ ?tmp], rule exI[of _ ?holes])
    using fp cell src by simp
qed

lemma patch_hole_map:
  "patch hole_map 2 2 = Some [4, 7, 10, 5, lowest, 11, 6, 9, lowest]"
  "patch hole_map 3 3 = Some [lowest, 11, lowest, 9, lowest, lowest, lowest, lowest, lowest]"
  by (simp_all add: patch_def hole_map_def access_defs)

lemma valid_hole_map:
  "valid_heights [4, 7, 10, 5, lowest, 11, 6, 9, lowest] = [4, 7, 10, 5, 11, 6, 9]"
  "valid_heights [lowest, 11, lowest, 9, lowest, lowest, lowest, lowest, lowest] = [11, 9]"
  using lowest_neg by (simp_all add: valid_heights_def)

theorem fill_pass_cells_witness:
  "0 \<le> width hole_map \<and> 0 \<le> height hole_map
   \<and> in_bounds hole_map 0 0 \<and> is_border hole_map 0 0
   \<and> in_bounds hole_map 1 1 \<and> \<not> is_border hole_map 1 1 \<and> pix hole_map 1 1 \<noteq> lowest
   \<and> in_bounds hole_map 2 2 \<and> \<not> is_border hole_map 2 2 \<and> pix hole_map 2 2 = lowest
   \<and> patch hole_map 2 2 = Some [4, 7, 10, 5, lowest, 11, 6, 9, lowest]
   \<and> 3 \<le> length (valid_heights [4, 7, 10, 5, lowest, 11, 6, 9, lowest])
   \<and> in_bounds hole_map 3 3 \<and> \<not> is_border hole_map 3 3 \<and> pix hole_map 3 3 = lowest
   \<and> patch hole_map 3 3 = Some [lowest, 11, lowest, 9, lowest, lowest, lowest, lowest, lowest]
   \<and> length (valid_heights [lowest, 11, lowest, 9, lowest, lowest, lowest, lowest, lowest]) < 3
   \<and> (\<exists>tmp. fill_pass hole_map = Some (tmp, True) \<and> at_img tmp 0 0 = Some lowest
          \<and> at_img tmp 1 1 = Some 4 \<and> at_img tmp 2 2 = Some 7 \<and> at_img tmp 3 3 = Some lowest)"
proof -
  have d: "0 \<le> width hole_map" "0 \<le> height hole_map" by (simp_all add: hole_map_def)
  have c0: "in_bounds hole_map 0 0" "is_border hole_map 0 0"
    by (simp_all add: hole_map_def in_bounds_def is_border_def)
  have c1: "in_bounds hole_map 1 1" "\<not> is_border hole_map 1 1" "pix hole_map 1 1 \<noteq> lowest"
    using lowest_neg by (simp_all add: hole_map_def in_bounds_def is_border_def)
  have p1: "pix hole_map 1 1 = 4" by (simp add: hole_map_def)
  have c2: "in_bounds hole_map 2 2" "\<not> is_border hole_map 2 2" "pix hole_map 2 2 = lowest"
    by (simp_all add: hole_map_def in_bounds_def is_border_def)
  have c3: "in_bounds hole_map 3 3" "\<not> is_border hole_map 3 3" "pix hole_map 3 3 = lowest"
    by (simp_all add: hole_map_def in_bounds_def is_border_def)
  have n2: "3 \<le> length (valid_heights [4, 7, 10, 5, lowest, 11, 6, 9, lowest])"
    by (simp add: valid_hole_map)
  have med: "sort (valid_heights [4, 7, 10, 5, lowest, 11, 6, 9, lowest])
      ! (length (valid_heights [4, 7, 10, 5, lowest, 11, 6, 9, lowest]) div 2) = 7"
    by (simp add: valid_hole_map)
  have n3: "length (valid_heights [lowest, 11, lowest, 9, lowest, lowest, lowest, lowest, lowest]) < 3"
    by (simp add: valid_hole_map)
  from fill_pass_cells[OF d] obtain tmp holes where fp: "fill_pass hole_map = Some (tmp, holes)"
    and cs: "\<And>x y. in_bounds hole_map x y \<Longrightarrow>
          (is_border hole_map x y \<longrightarrow> at_img tmp x y = Some lowest)
        \<and> (\<not> is_border hole_map x y \<and> pix hole_map x y \<noteq> lowest
             \<longrightarrow> at_img tmp x y = Some (pix hole_map x y))
        \<and> (\<not> is_border hole_map x y \<and> pix hole_map x y = lowest \<longrightarrow>
             (\<exists>hs. patch hole_map x y = Some hs
                \<and> (3 \<le> length (valid_heights hs) \<longrightarrow> at_img tmp x y =
                      Some (sort (valid_heights hs) ! (length (valid_heights hs) div 2)))
                \<and> (length (valid_heights hs) < 3 \<longrightarrow> at_img tmp x y = Some lowest \<and> holes)))"
    by blast
  from cs[OF c0(1)] c0 have a0: "at_img tmp 0 0 = Some lowest" by simp
  from cs[OF c1(1)] c1 p1 have a1: "at_img tmp 1 1 = Some 4" by simp
  from cs[OF c2(1)] c2 patch_hole_map(1) n2 med have a2: "at_img tmp 2 2 = Some 7" by auto
  from cs[OF c3(1)] c3 patch_hole_map(2) n3 have a3: "at_img tmp 3 3 = Some lowest \<and> holes"
    by auto
  have "\<exists>tmp. fill_pass hole_map = Some (tmp, True) \<and> at_img tmp 0 0 = Some lowest
          \<and> at_img tmp 1 1 = Some 4 \<and> at_img tmp 2 2 = Some 7 \<and> at_img tmp 3 3 = Some lowest"
    using fp a0 a1 a2 a3 by auto
  then show ?thesis
    using d c0 c1 c2 c3 patch_hole_map n2 n3 by simp
qed

section \<open>Hole filler: the loop\<close>

lemma fill_pass_dims:
  assumes "0 \<le> width hmap" "0 \<le> height hmap" "fill_pass hmap = Some (tmp, holes)"
  shows "width tmp = width hmap \<and> height tmp = height hmap"
  using fill_pass_result[OF assms(1,2)] assms(3) by auto

text \<open>After a pass that leaves \<open>holes\<close> unset, only the border holds the sentinel.\<close>

lemma fill_pass_no_holes:
  assumes d: "0 \<le> width hmap" "0 \<le> height hmap" and fp: "fill_pass hmap = Some (tmp, False)"
    and ib: "in_bounds tmp x y"
  shows "(is_border tmp x y \<longrightarrow> at_img tmp x y = Some lowest)
       \<and> (\<not> is_border tmp x y \<longrightarrow> (\<exists>v. at_img tmp x y = Some v \<and> v \<noteq> lowest))"
proof -
  let ?res = "\<lparr>width = width hmap, height = height hmap,
           pix = (\<lambda>x y. if in_bounds hmap x y then fst (the (fill_cell hmap x y)) else 0)\<rparr>"
  from fill_pass_result[OF d] fp have tmp: "tmp = ?res"
    and nh: "\<not> (\<exists>x y. in_bounds hmap x y \<and> snd (the (fill_cell hmap x y)))"
    by auto
  have ibh: "in_bounds hmap x y" using ib tmp by (simp add: in_bounds_def)
  have bd: "is_border tmp x y = is_border hmap x y" using tmp by (simp add: is_border_def)
  have at: "at_img tmp x y = Some (fst (the (fill_cell hmap x y)))"
    using ibh tmp by (simp add: at_img_in_bounds in_bounds_def)
  have ns: "\<not> snd (the (fill_cell hmap x y))" using nh ibh by blast
  show ?thesis
  proof (cases "is_border hmap x y")
    case True
    with fill_cell_cases[OF ibh] at bd show ?thesis by simp
  next
    case nb: False
    show ?thesis
    proof (cases "pix hmap x y = lowest")
      case False
      with fill_cell_cases[OF ibh] nb at bd show ?thesis by simp
    next
      case True
      with fill_cell_cases[OF ibh] nb obtain hs where
        big: "3 \<le> length (valid_heights hs) \<Longrightarrow> fill_cell hmap x y =
                  Some (sort (valid_heights hs) ! (length (valid_heights hs) div 2), False)"
        and small: "length (valid_heights hs) < 3 \<Longrightarrow> fill_cell hmap x y = Some (lowest, True)"
        by blast
      have "3 \<le> length (valid_heights hs)"
      proof (rule ccontr)
        assume "\<not> 3 \<le> length (valid_heights hs)"
        then have "fill_cell hmap x y = Some (lowest, True)" using small by simp
        with ns show False by simp
      qed
      from big[OF this] median_of_valid[OF this] at nb bd show ?thesis by simp
    qed
  qed
qed

text \<open>
  C5, as the code has it. Whenever the loop terminates on a grid with non-negative
  dimensions, the grid it returns has the size of the input, it is the result of a pass
  that left \<open>holes\<close> unset, every interior cell of it holds a value other than the
  sentinel, and every border cell of it holds the sentinel.
\<close>

theorem fill_holes_interior_valid:
  assumes "fill_holes hmap = Some g" and "0 \<le> width hmap" and "0 \<le> height hmap"
  shows "width g = width hmap \<and> height g = height hmap
     \<and> (\<exists>prev. fill_pass prev = Some (g, False))
     \<and> (\<forall>x y. in_bounds g x y \<longrightarrow>
          (is_border g x y \<longrightarrow> at_img g x y = Some lowest)
        \<and> (\<not> is_border g x y \<longrightarrow> (\<exists>v. at_img g x y = Some v \<and> v \<noteq> lowest)))"
  using assms
proof (induction rule: fill_holes.raw_induct[rotated 1, consumes 1, case_names step])
  case (step fill_holes' hmap g)
  from fill_pass_result[OF step(3,4)] obtain tmp holes
    where fp: "fill_pass hmap = Some (tmp, holes)"
    by blast
  from fill_pass_dims[OF step(3,4) fp]
  have dt: "width tmp = width hmap" "height tmp = height hmap"
    by auto
  show ?case
  proof (cases holes)
    case True
    with step(2) fp have "fill_holes' tmp = Some g" by simp
    from step(1)[OF this] dt step(3,4) show ?thesis by simp
  next
    case False
    with step(2) fp have g: "g = tmp" by simp
    from fp False g have fpg: "fill_pass hmap = Some (g, False)" by simp
    from fill_pass_no_holes[OF step(3,4) fpg] dt g fpg show ?thesis by blast
  qed
qed

text \<open>The run of the loop on \<open>hole_map\<close>: two passes, the second one leaves no hole.\<close>

lemma cells_5_5:
  "cells 5 5 =
     [(0, 0), (1, 0), (2, 0), (3, 0), (4, 0), (0, 1), (1, 1), (2, 1), (3, 1), (4, 1),
      (0, 2), (1, 2), (2, 2), (3, 2), (4, 2), (0, 3), (1, 3), (2, 3), (3, 3), (4, 3),
      (0, 4), (1, 4), (2, 4), (3, 4), (4, 4)]"
  by code_simp

lemma lowest_numeral: "lowest \<noteq> numeral n" "numeral n \<noteq> lowest"
proof -
  have "lowest < numeral n" using lowest_neg by (rule less_trans) simp
  then show "lowest \<noteq> numeral n" "numeral n \<noteq> lowest" by simp_all
qed

lemma fill_holes_hole_map: "fill_holes hole_map = Some hole_map_filled"
proof -
  note ev = fill_pass_def cells_5_5 create_def access_defs fill_cell_def
    is_border_def patch_def valid_heights_def lowest_numeral
  have small: "x = 0 \<or> x = 1 \<or> x = 2 \<or> x = 3 \<or> x = 4" if "0 \<le> x" "x < 5" for x :: int
    using that by arith
  show ?thesis
    apply (subst fill_holes.simps)
    apply (simp add: hole_map_def ev)
    apply (subst fill_holes.simps)
    apply (simp add: ev hole_map_filled_def)
    apply (intro ext)
    subgoal for x y
      apply (cases "0 \<le> x \<and> x < 5"; cases "0 \<le> y \<and> y < 5")
      using small[of x] small[of y] apply auto
      done
    done
qed

theorem fill_holes_interior_valid_witness:
  "fill_holes hole_map = Some hole_map_filled \<and> 0 \<le> width hole_map \<and> 0 \<le> height hole_map
   \<and> width hole_map_filled = 5 \<and> height hole_map_filled = 5
   \<and> in_bounds hole_map_filled 3 3 \<and> \<not> is_border hole_map_filled 3 3
   \<and> (\<exists>v. at_img hole_map_filled 3 3 = Some v \<and> v \<noteq> lowest)
   \<and> in_bounds hole_map_filled 0 2 \<and> is_border hole_map_filled 0 2
   \<and> at_img hole_map_filled 0 2 = Some lowest
   \<and> (\<exists>prev. fill_pass prev = Some (hole_map_filled, False))"
proof -
  have d: "0 \<le> width hole_map" "0 \<le> height hole_map" by (simp_all add: hole_map_def)
  have c: "in_bounds hole_map_filled 3 3" "\<not> is_border hole_map_filled 3 3"
      "in_bounds hole_map_filled 0 2" "is_border hole_map_filled 0 2"
    by (simp_all add: in_bounds_def is_border_def hole_map_filled_def)
  from fill_holes_interior_valid[OF fill_holes_hole_map d] c
  show ?thesis using fill_holes_hole_map d by (simp add: hole_map_def)
qed

text \<open>
  C5 as the spec states it fails: the loop terminates on \<open>hole_map\<close>, and the border cell
  \<open>(0, 0)\<close> of the returned grid holds the sentinel.
\<close>

theorem fill_holes_border_sentinel:
  "fill_holes hole_map = Some hole_map_filled \<and> in_bounds hole_map_filled 0 0
   \<and> at_img hole_map_filled 0 0 = Some lowest"
  using fill_holes_hole_map by (simp add: in_bounds_def access_defs hole_map_filled_def)

section \<open>Discontinuity resampler: the samples of one cell\<close>

text \<open>
  A cell whose four neighbours along the axes are all higher (the condition of line 360)
  has a negative magnitude.
\<close>

lemma bowl_mag_neg:
  "fdx hs > 0 \<Longrightarrow> rdx hs < 0 \<Longrightarrow> fdy hs > 0 \<Longrightarrow> rdy hs < 0 \<Longrightarrow> mag hs < 0"
  by (simp add: mag_def)

text \<open>
  So, under exact arithmetic, the loop of a discontinuous cell (\<open>m > r\<close>) never runs an
  iteration \<open>i \<ge> 1\<close> in which the condition of line 360 holds, whatever the sign of the
  resolution.
\<close>

lemma bowl_not_in_loop:
  assumes "r \<noteq> 0" "r < mag hs" "1 \<le> i" "of_int i \<le> mag hs / r"
  shows "\<not> (fdx hs > 0 \<and> rdx hs < 0 \<and> fdy hs > 0 \<and> rdy hs < 0)"
proof
  assume "fdx hs > 0 \<and> rdx hs < 0 \<and> fdy hs > 0 \<and> rdy hs < 0"
  then have neg: "mag hs < 0" using bowl_mag_neg[of hs] by simp
  with assms(2) have r: "r < 0" by simp
  from r assms(2) have "mag hs / r < 1" by (simp add: field_simps)
  moreover from assms(3) have "(1::real) \<le> of_int i" by simp
  ultimately show False using assms(4) by simp
qed

text \<open>
  When every cell has its samples, the resampled cloud is the concatenation of the samples
  of the cells, in loop order.
\<close>

lemma resample_loop_concat:
  assumes "\<forall>c\<in>set cs. resample_cell find_nn fuse r g mn hmap (fst c) (snd c) \<noteq> None"
  shows "resample_loop find_nn fuse r g mn hmap cs scloud =
     Some (scloud @ concat (map (\<lambda>c. the (resample_cell find_nn fuse r g mn hmap (fst c) (snd c))) cs))"
  using assms
proof (induction cs arbitrary: scloud)
  case Nil
  show ?case by simp
next
  case (Cons c cs)
  obtain x y where c: "c = (x, y)" by (cases c)
  from Cons.prems c obtain ss where ss: "resample_cell find_nn fuse r g mn hmap x y = Some ss"
    by auto
  from Cons.prems have "\<forall>c\<in>set cs. resample_cell find_nn fuse r g mn hmap (fst c) (snd c) \<noteq> None"
    by simp
  from Cons.IH[OF this] ss show ?case by (simp add: c)
qed

lemma resample_concat:
  assumes "\<forall>c\<in>set (cells (width hmap) (height hmap)).
      resample_cell find_nn fuse r g mn hmap (fst c) (snd c) \<noteq> None"
  shows "resample find_nn fuse r g mn hmap =
     Some (concat (map (\<lambda>c. the (resample_cell find_nn fuse r g mn hmap (fst c) (snd c)))
                       (cells (width hmap) (height hmap))))"
  using resample_loop_concat[OF assms, of "[]"] by (simp add: resample_def)


text \<open>
  C2. A processed cell with neighbourhood \<open>hs\<close> and magnitude \<open>m \<le> r\<close>: without fuse mode
  the cell emits exactly one sample, at the planar position of the cell, at the cell's
  height plus \<open>ground_level\<close>, with normal \<open>(0, 0, 1)\<close>; with fuse mode it emits nothing.
\<close>

theorem resample_flat_cell:
  assumes "processed hmap x y" "patch hmap x y = Some hs" "mag hs \<le> r"
  shows "at_img hmap x y = Some (hts hs 1 1)
    \<and> resample_cell find_nn fuse r g mn hmap x y =
       (if fuse then Some []
        else Some [((sample_coord r (vx mn) x, sample_coord r (vy mn) y, hts hs 1 1 + g),
                    Some (0, 0, 1))])"
proof -
  from patch_processed[OF assms(1)] assms(2) have "hts hs 1 1 = pix hmap x y" by auto
  moreover from assms(1) have "in_bounds hmap x y" by (auto simp: processed_def in_bounds_def)
  ultimately show ?thesis using assms by (simp add: resample_cell_def at_img_in_bounds)
qed

theorem resample_flat_cell_witness:
  "processed flat_map 2 2 \<and> patch flat_map 2 2 = Some [0, 0, 0, 0, 0, 0, 0, 0, 0]
   \<and> mag [0, 0, 0, 0, 0, 0, 0, 0, 0] \<le> 1
   \<and> at_img flat_map 2 2 = Some 0
   \<and> resample_cell (\<lambda>v d. False) False 1 10 (0, 0, 0) flat_map 2 2 =
        Some [((3 / 2, 3 / 2, 10), Some (0, 0, 1))]
   \<and> resample_cell (\<lambda>v d. False) True 1 10 (0, 0, 0) flat_map 2 2 = Some []"
proof -
  let ?hs = "[0, 0, 0, 0, 0, 0, 0, 0, 0] :: real list"
  have p: "processed flat_map 2 2" by (simp add: processed_def flat_map_def)
  have hs: "patch flat_map 2 2 = Some ?hs"
    by (simp add: patch_def flat_map_def access_defs)
  have m: "mag ?hs \<le> 1"
    by (simp add: mag_def rdx_def rdy_def fdx_def fdy_def hts_def)
  have sc: "sample_coord 1 0 2 = 3 / 2" by (simp add: sample_coord_def)
  from resample_flat_cell[OF p hs m, of "\<lambda>v d. False" False 10 "(0, 0, 0)"]
       resample_flat_cell[OF p hs m, of "\<lambda>v d. False" True 10 "(0, 0, 0)"]
  show ?thesis using p hs m by (simp add: sc vx_def vy_def hts_def)
qed












section \<open>Rasterization and resample placement agree\<close>

text \<open>
  C9. For a resolution \<open>r > 0\<close> and a cell \<open>(x, y)\<close> that the resampler processes, in a grid
  whose dimensions are \<^verbatim>\<open>int\<close> values, the planar position \<open>(x - r / 2) * r + min\<close> of the
  cell is binned by the rasterizer's index formula to \<open>x\<close> again, and likewise for \<open>y\<close>
  (exact arithmetic).
\<close>

theorem sample_coord_cell_index:
  assumes r: "0 < r" and p: "processed hmap x y"
    and w: "width hmap < 2 ^ 31" and h: "height hmap < 2 ^ 31"
  shows "cell_index (sample_coord r (vx mn) x) (vx mn) r = Some x
       \<and> cell_index (sample_coord r (vy mn) y) (vy mn) r = Some y"
proof -
  have idx: "cell_index (sample_coord r m i) m r = Some i" if "0 \<le> i" "i < 2 ^ 31" for m i
  proof -
    have "(sample_coord r m i - m) / r + r / 2 + 1 / 2 = of_int i + 1 / 2"
      using r by (simp add: sample_coord_def field_simps)
    moreover have "\<lfloor>of_int i + (1::real) / 2\<rfloor> = i" by linarith
    moreover have "(0::real) \<le> of_int i + 1 / 2" using that by simp
    ultimately show ?thesis
      using r that by (simp add: cell_index_def float_to_int_def)
  qed
  from p w h have "0 \<le> x" "x < 2 ^ 31" "0 \<le> y" "y < 2 ^ 31"
    by (auto simp: processed_def)
  then show ?thesis by (simp add: idx)
qed

theorem sample_coord_cell_index_witness:
  "(0::real) < 1 / 2 \<and> processed flat_map 2 2 \<and> width flat_map < 2 ^ 31
   \<and> height flat_map < 2 ^ 31
   \<and> sample_coord (1 / 2) 7 2 = 63 / 8
   \<and> cell_index (63 / 8) 7 (1 / 2) = Some 2"
proof -
  have p: "processed flat_map 2 2" by (simp add: processed_def flat_map_def)
  have d: "width flat_map < 2 ^ 31" "height flat_map < 2 ^ 31" by (simp_all add: flat_map_def)
  have sc: "sample_coord (1 / 2) 7 2 = 63 / 8" by (simp add: sample_coord_def)
  from sample_coord_cell_index[OF _ p d, of "1 / 2" "(7, 7, 0)"]
  show ?thesis using p d by (simp add: sc vx_def vy_def)
qed

end
